theory Spec2Isabelle
  imports Main "HOL-Library.Word" "HOL-Library.Sublist"
begin

section \<open>DOM trees and their serialization\<close>

text \<open>
  The editor works on the browser's DOM. A node is an element (tag name, attributes,
  child nodes), a text node, or a comment (the only other node type that can occur below
  \<open>body\<close>). The tag stored in an element is the value of
  \<open>element.tagName.toLowerCase()\<close>, which for HTML elements is also the name the
  serializer writes.
\<close>

datatype node =
    Element string "(string \<times> string) list" "node list"
  | Text string
  | Comment string

text \<open>
  A string is a list of code units; the characters of the model are the code units 0 to
  255. JavaScript's white space and line terminators in that range are the six ASCII
  characters below and the no-break space U+00A0; \<open>String.prototype.trim\<close> removes them
  from both ends.
\<close>

definition isAsciiWhiteSpace :: "char \<Rightarrow> bool" where
  "isAsciiWhiteSpace c =
     (c \<in> set [CHR 0x09, CHR 0x0A, CHR 0x0B, CHR 0x0C, CHR 0x0D, CHR 0x20])"

definition isWhiteSpace :: "char \<Rightarrow> bool" where
  "isWhiteSpace c = (isAsciiWhiteSpace c \<or> c = CHR 0xA0)"

definition trim :: "string \<Rightarrow> string" where
  "trim s = rev (dropWhile isWhiteSpace (rev (dropWhile isWhiteSpace s)))"

text \<open>\<open>node.textContent\<close>: the text of all text descendants, in document order.\<close>

fun textContent :: "node \<Rightarrow> string" where
  "textContent (Text s) = s"
| "textContent (Comment s) = s"
| "textContent (Element t as cs) =
     concat (map (\<lambda>c. case c of Comment _ \<Rightarrow> [] | _ \<Rightarrow> textContent c) cs)"

text \<open>
  \<open>element.outerHTML\<close>: the HTML fragment serialization. Text is escaped
  (\<open>&\<close>, the no-break space, \<open><\<close>, \<open>>\<close>), attribute values are escaped (\<open>&\<close>, the
  no-break space and the double quote), void elements have no end tag and no children.
  The raw text elements (\<open>script\<close>, \<open>style\<close>), whose text the browser does not escape,
  are not told apart.
\<close>

fun escapeText :: "string \<Rightarrow> string" where
  "escapeText [] = []"
| "escapeText (c # s) =
     (if c = CHR ''&'' then ''&amp;''
      else if c = CHR 0xA0 then ''&nbsp;''
      else if c = CHR ''<'' then ''&lt;''
      else if c = CHR ''>'' then ''&gt;''
      else [c]) @ escapeText s"

fun escapeAttr :: "string \<Rightarrow> string" where
  "escapeAttr [] = []"
| "escapeAttr (c # s) =
     (if c = CHR ''&'' then ''&amp;''
      else if c = CHR 0xA0 then ''&nbsp;''
      else if c = CHR 0x22 then ''&quot;''
      else [c]) @ escapeAttr s"

definition voidElements :: "string list" where
  "voidElements = [''area'', ''base'', ''basefont'', ''bgsound'', ''br'', ''col'', ''embed'',
     ''frame'', ''hr'', ''img'', ''input'', ''keygen'', ''link'', ''meta'', ''param'', ''source'',
     ''track'', ''wbr'']"

definition serializeAttrs :: "(string \<times> string) list \<Rightarrow> string" where
  "serializeAttrs as =
     concat (map (\<lambda>(k, v). '' '' @ k @ ''='' @ [CHR 0x22] @ escapeAttr v @ [CHR 0x22]) as)"

fun outerHTML :: "node \<Rightarrow> string" where
  "outerHTML (Text s) = escapeText s"
| "outerHTML (Comment s) = ''<!--'' @ s @ ''-->''"
| "outerHTML (Element t as cs) =
     ''<'' @ t @ serializeAttrs as @ ''>'' @
     (if t \<in> set voidElements then []
      else concat (map outerHTML cs) @ ''</'' @ t @ ''>'')"

text \<open>\<open>innerHTML\<close> of a node whose children are \<open>ns\<close>.\<close>

definition innerHTML :: "node list \<Rightarrow> string" where
  "innerHTML ns = concat (map outerHTML ns)"

section \<open>Block segmenter\<close>

datatype blockType = TypeText | TypeHeading | TypeList | TypeCode | TypeBlockquote

text \<open>
  The interface \<open>EditorBlock\<close> with its fields \<open>id\<close>, \<open>content\<close> and \<open>type\<close>.
\<close>

record EditorBlock =
  block_id :: string
  block_content :: string
  block_type :: blockType

text \<open>Decimal rendering of a number inside a template literal.\<close>

definition digitChar :: "nat \<Rightarrow> char" where
  "digitChar d = ''0123456789'' ! d"

fun numberToString :: "nat \<Rightarrow> string" where
  "numberToString n =
     (if n < 10 then [digitChar n] else numberToString (n div 10) @ [digitChar (n mod 10)])"

declare numberToString.simps [simp del]

text \<open>
  \<open>processNode\<close> pushes onto the array \<open>blocks\<close> and increments the counter
  \<open>blockId\<close>; both are threaded through as a pair. \<open>pushBlock\<close> is the repeated
  statement \<open>blocks.push({id: `block-${blockId++}`, content, type})\<close>.
\<close>

type_synonym segState = "EditorBlock list \<times> nat"

definition pushBlock :: "string \<Rightarrow> blockType \<Rightarrow> segState \<Rightarrow> segState" where
  "pushBlock c ty st =
     (case st of (blocks, blockId) \<Rightarrow>
        (blocks @ [\<lparr>block_id = ''block-'' @ numberToString blockId,
                    block_content = c, block_type = ty\<rparr>],
         blockId + 1))"

fun processNode :: "node \<Rightarrow> segState \<Rightarrow> segState" where
  "processNode (Element tagName as cs) st =
     (if tagName \<in> set [''h1'', ''h2'', ''h3'', ''h4'', ''h5'', ''h6''] then
        pushBlock (outerHTML (Element tagName as cs)) TypeHeading st
      else if tagName \<in> set [''ul'', ''ol''] then
        pushBlock (outerHTML (Element tagName as cs)) TypeList st
      else if tagName = ''pre'' then
        pushBlock (outerHTML (Element tagName as cs)) TypeCode st
      else if tagName = ''blockquote'' then
        pushBlock (outerHTML (Element tagName as cs)) TypeBlockquote st
      else if tagName = ''p'' \<or> tagName = ''div'' then
        pushBlock
          (if outerHTML (Element tagName as cs) \<noteq> [] then outerHTML (Element tagName as cs)
           else if textContent (Element tagName as cs) \<noteq> []
             then textContent (Element tagName as cs)
           else [])
          TypeText st
      else fold processNode cs st)"
| "processNode (Text s) st =
     (if trim s \<noteq> [] then pushBlock (''<p>'' @ s @ ''</p>'') TypeText st else st)"
| "processNode (Comment s) st = st"

text \<open>
  \<open>parseContentIntoBlocks\<close>. The browser's \<open>DOMParser\<close> is a parameter: \<open>parser html\<close>
  is \<open>parser.parseFromString(html, 'text/html').body.childNodes\<close>.
\<close>

definition emptyBlock :: EditorBlock where
  "emptyBlock = \<lparr>block_id = ''block-0'', block_content = ''<p><br/></p>'',
     block_type = TypeText\<rparr>"

definition segmentNodes :: "node list \<Rightarrow> EditorBlock list" where
  "segmentNodes ns = fst (fold processNode ns ([], 0))"

definition parseContentIntoBlocks :: "(string \<Rightarrow> node list) \<Rightarrow> string \<Rightarrow> EditorBlock list" where
  "parseContentIntoBlocks parser html =
     (let blocks = segmentNodes (parser html)
      in if length blocks = 0 then blocks @ [emptyBlock] else blocks)"

text \<open>
  Predicates used to state the segmenter's properties: the elements \<open>processNode\<close>
  emits as one block, the text nodes of ASCII white space only (the white space between
  the tags of a snapshot), the deletion of all white space (the coarsest white space
  normalization), and the numbering invariant of the pair (\<open>blocks\<close>, \<open>blockId\<close>).
\<close>

definition isBlockElement :: "node \<Rightarrow> bool" where
  "isBlockElement n =
     (case n of
        Element tagName as cs \<Rightarrow>
          tagName \<in> set [''h1'', ''h2'', ''h3'', ''h4'', ''h5'', ''h6'', ''ul'', ''ol'', ''pre'',
            ''blockquote'', ''p'', ''div'']
      | _ \<Rightarrow> False)"

definition isBlankText :: "node \<Rightarrow> bool" where
  "isBlankText n = (case n of Text s \<Rightarrow> list_all isAsciiWhiteSpace s | _ \<Rightarrow> False)"

definition stripWhiteSpace :: "string \<Rightarrow> string" where
  "stripWhiteSpace s = filter (\<lambda>c. \<not> isWhiteSpace c) s"

text \<open>
  The segmentation as section 4.2 of the specification words it, for comparison with
  \<open>processNode\<close>. \<open>sourceNodes\<close> lists the nodes that become blocks: a classified
  element is one block and is not descended into, any other element is a wrapper and
  contributes the blocks of its children, a text node with content other than white
  space is one block, and nothing else is a block. \<open>blockSource\<close> is the content fragment
  of the block made from a node: the serialized subtree of an element, the text wrapped
  into a paragraph for a text node. \<open>treeOrder\<close> is the document order of the DOM: a node
  comes before its children, and the children come in their order.
\<close>

fun sourceNodes :: "node \<Rightarrow> node list" where
  "sourceNodes (Element t as cs) =
     (if isBlockElement (Element t as cs) then [Element t as cs]
      else concat (map sourceNodes cs))"
| "sourceNodes (Text s) = (if trim s \<noteq> [] then [Text s] else [])"
| "sourceNodes (Comment s) = []"

fun blockSource :: "node \<Rightarrow> string" where
  "blockSource (Text s) = ''<p>'' @ s @ ''</p>''"
| "blockSource (Element t as cs) = outerHTML (Element t as cs)"
| "blockSource (Comment s) = outerHTML (Comment s)"

fun treeOrder :: "node \<Rightarrow> node list" where
  "treeOrder (Element t as cs) = Element t as cs # concat (map treeOrder cs)"
| "treeOrder (Text s) = [Text s]"
| "treeOrder (Comment s) = [Comment s]"

definition wellNumbered :: "segState \<Rightarrow> bool" where
  "wellNumbered st =
     (snd st = length (fst st) \<and>
      (\<forall>i < length (fst st). block_id (fst st ! i) = ''block-'' @ numberToString i))"

section \<open>The replicated document (interface of loro-crdt)\<close>

text \<open>
  The hook \<open>useLoroEditor\<close> keeps the document in a \<open>Loro\<close> object of the external
  library loro-crdt and uses \<open>getText\<close>, \<open>LoroText.length\<close>, \<open>insert\<close>, \<open>delete\<close>,
  \<open>toString\<close> and \<open>Loro.commit\<close>, \<open>subscribe\<close>, \<open>export\<close>, \<open>import\<close>. This section
  records the behaviour of that interface which the hook relies on:
  \<^item> the document holds the text of the container \<open>content\<close>, the operations of the open
    transaction and the committed changes, each with its id (peer, counter);
  \<^item> a JavaScript number passed where the library expects an index is converted to a
    32-bit unsigned integer (\<open>toIndex\<close>: an integer \<open>n\<close> becomes \<open>n mod 2^32\<close>, so
    \<open>2^32\<close> becomes \<open>0\<close> and \<open>-1\<close> becomes \<open>2^32 - 1\<close>); a length read from the library
    is an index already;
  \<^item> \<open>insert\<close> raises an error for an index behind the end of the text, does nothing
    for an empty string, and splices the string in otherwise; \<open>delete\<close> does nothing for
    a zero length, raises an error when the range ends behind the end of the text, and
    removes the range otherwise;
  \<^item> \<open>commit\<close> closes the transaction and notifies the subscribers when it is not empty;
  \<^item> the snapshot codec and the merge of concurrent changes are the library's own
    algorithms and are parameters (\<open>loroLib\<close>); \<open>import\<close> raises an error on bytes the
    decoder rejects and changes nothing then, adopts the snapshot when it extends the
    document's own history, and merges otherwise.
\<close>

datatype jsError = OutOfBound | DecodeError

text \<open>How a call ends: it returns a value, or an exception propagates to the caller.\<close>

datatype 'r completion = Returns 'r | Throws jsError

datatype textOp = OpInsert nat string | OpDelete nat nat

type_synonym changeId = "nat \<times> nat"

type_synonym change = "changeId \<times> textOp list"

record loro =
  peerId :: nat
  textState :: string
  pendingOps :: "textOp list"
  oplog :: "change list"

type_synonym snapshot = "string \<times> change list"

type_synonym uint8Array = "8 word list"

record loroLib =
  encodeSnapshot :: "snapshot \<Rightarrow> uint8Array"
  decodeSnapshot :: "uint8Array \<Rightarrow> snapshot option"
  mergeConcurrent :: "loro \<Rightarrow> snapshot \<Rightarrow> string"

definition newLoro :: "nat \<Rightarrow> loro" where
  "newLoro peer = \<lparr>peerId = peer, textState = [], pendingOps = [], oplog = []\<rparr>"

definition toIndex :: "int \<Rightarrow> nat" where
  "toIndex n = nat (n mod 2 ^ 32)"

definition textInsert :: "nat \<Rightarrow> string \<Rightarrow> loro \<Rightarrow> jsError + loro" where
  "textInsert pos s d =
     (if length (textState d) < pos then Inl OutOfBound
      else if s = [] then Inr d
      else Inr (d\<lparr>textState := take pos (textState d) @ s @ drop pos (textState d),
                  pendingOps := pendingOps d @ [OpInsert pos s]\<rparr>))"

definition textDelete :: "nat \<Rightarrow> nat \<Rightarrow> loro \<Rightarrow> jsError + loro" where
  "textDelete pos len d =
     (if len = 0 then Inr d
      else if length (textState d) < pos + len then Inl OutOfBound
      else Inr (d\<lparr>textState := take pos (textState d) @ drop (pos + len) (textState d),
                  pendingOps := pendingOps d @ [OpDelete pos len]\<rparr>))"

text \<open>\<open>commit\<close> returns the document and whether the subscribers are notified.\<close>

definition commit :: "loro \<Rightarrow> loro \<times> bool" where
  "commit d =
     (if pendingOps d = [] then (d, False)
      else (d\<lparr>oplog := oplog d @ [((peerId d, length (oplog d)), pendingOps d)],
              pendingOps := []\<rparr>, True))"

definition exportSnapshot :: "loroLib \<Rightarrow> loro \<Rightarrow> uint8Array" where
  "exportSnapshot lib d = encodeSnapshot lib (textState d, oplog d)"

definition importSnapshot :: "loroLib \<Rightarrow> uint8Array \<Rightarrow> loro \<Rightarrow> jsError + loro \<times> bool" where
  "importSnapshot lib bytes d =
     (case decodeSnapshot lib bytes of
        None \<Rightarrow> Inl DecodeError
      | Some (t, log) \<Rightarrow>
          if set log \<subseteq> set (oplog d) then Inr (d, False)
          else if set (oplog d) \<subseteq> set log then Inr (d\<lparr>textState := t, oplog := log\<rparr>, True)
          else Inr (d\<lparr>textState := mergeConcurrent lib d (t, log),
                      oplog := oplog d @ filter (\<lambda>c. c \<notin> set (oplog d)) log\<rparr>, True))"

section \<open>The document store: hook \<open>useLoroEditor\<close>\<close>

text \<open>
  The state of one hook instance: \<open>loroDocRef.current\<close> (with \<open>textRef.current\<close>, the
  text container of that document; the mount effect assigns both together, so both are
  null or neither is), the React state \<open>content\<close>, and \<open>isInternalUpdateRef.current\<close>.
  \<open>eventsDelivered\<close> counts the calls of the callback registered with
  \<open>loroDoc.subscribe\<close>. The state \<open>format\<close> plays no part in the store and is left out.
\<close>

record useLoroEditor =
  loroDocRef :: "loro option"
  content :: string
  isInternalUpdateRef :: bool
  eventsDelivered :: nat

definition initialEditor :: useLoroEditor where
  "initialEditor = \<lparr>loroDocRef = None, content = [], isInternalUpdateRef = False,
     eventsDelivered = 0\<rparr>"

text \<open>The mount effect: \<open>new Loro()\<close> (with the peer id it draws), \<open>getText\<close>, \<open>subscribe\<close>.\<close>

definition mountEffect :: "nat \<Rightarrow> useLoroEditor \<Rightarrow> useLoroEditor" where
  "mountEffect peer s = s\<lparr>loroDocRef := Some (newLoro peer)\<rparr>"

text \<open>
  The subscribed callback
  \<open>() => { if (textRef.current && !isInternalUpdateRef.current) setContent(textRef.current.toString()) }\<close>,
  called once per notification; notifications are delivered when the library emits them.
\<close>

definition subscriber :: "useLoroEditor \<Rightarrow> useLoroEditor" where
  "subscriber s =
     (let s' = s\<lparr>eventsDelivered := eventsDelivered s + 1\<rparr>
      in case loroDocRef s' of
           None \<Rightarrow> s'
         | Some d \<Rightarrow> if \<not> isInternalUpdateRef s' then s'\<lparr>content := textState d\<rparr> else s')"

definition deliver :: "bool \<Rightarrow> useLoroEditor \<Rightarrow> useLoroEditor" where
  "deliver notified s = (if notified then subscriber s else s)"

definition updateContent :: "string \<Rightarrow> useLoroEditor \<Rightarrow> unit completion \<times> useLoroEditor" where
  "updateContent newContent s =
     (case loroDocRef s of
        None \<Rightarrow> (Returns (), s)
      | Some d \<Rightarrow>
          let s1 = s\<lparr>isInternalUpdateRef := True\<rparr>;
              currentLength = length (textState d)
          in case (if 0 < currentLength then textDelete 0 currentLength d else Inr d) of
               Inl e \<Rightarrow> (Throws e, s1)
             | Inr d1 \<Rightarrow>
                 (case (if newContent \<noteq> [] then textInsert 0 newContent d1 else Inr d1) of
                    Inl e \<Rightarrow> (Throws e, s1\<lparr>loroDocRef := Some d1\<rparr>)
                  | Inr d2 \<Rightarrow>
                      let (d3, notified) = commit d2;
                          s2 = deliver notified (s1\<lparr>loroDocRef := Some d3\<rparr>);
                          s3 = s2\<lparr>content := newContent\<rparr>
                      in (Returns (), s3\<lparr>isInternalUpdateRef := False\<rparr>)))"

definition insertText :: "string \<Rightarrow> int option \<Rightarrow> useLoroEditor \<Rightarrow> unit completion \<times> useLoroEditor" where
  "insertText txt position s =
     (case loroDocRef s of
        None \<Rightarrow> (Returns (), s)
      | Some d \<Rightarrow>
          let insertPos = (case position of None \<Rightarrow> length (textState d) | Some p \<Rightarrow> toIndex p)
          in case textInsert insertPos txt d of
               Inl e \<Rightarrow> (Throws e, s)
             | Inr d1 \<Rightarrow>
                 let (d2, notified) = commit d1
                 in (Returns (), deliver notified (s\<lparr>loroDocRef := Some d2\<rparr>)))"

definition deleteText :: "int \<Rightarrow> int \<Rightarrow> useLoroEditor \<Rightarrow> unit completion \<times> useLoroEditor" where
  "deleteText start len s =
     (case loroDocRef s of
        None \<Rightarrow> (Returns (), s)
      | Some d \<Rightarrow>
          (case textDelete (toIndex start) (toIndex len) d of
             Inl e \<Rightarrow> (Throws e, s)
           | Inr d1 \<Rightarrow>
               let (d2, notified) = commit d1
               in (Returns (), deliver notified (s\<lparr>loroDocRef := Some d2\<rparr>))))"

text \<open>\<open>getSnapshot\<close> returns \<open>undefined\<close> (\<open>None\<close>) when the document is missing.\<close>

definition getSnapshot :: "loroLib \<Rightarrow> useLoroEditor \<Rightarrow> uint8Array option" where
  "getSnapshot lib s = map_option (exportSnapshot lib) (loroDocRef s)"

definition loadSnapshot :: "loroLib \<Rightarrow> uint8Array \<Rightarrow> useLoroEditor \<Rightarrow> unit completion \<times> useLoroEditor" where
  "loadSnapshot lib snapshot s =
     (case loroDocRef s of
        None \<Rightarrow> (Returns (), s)
      | Some d \<Rightarrow>
          (case importSnapshot lib snapshot d of
             Inl e \<Rightarrow> (Throws e, s)
           | Inr (d1, notified) \<Rightarrow> (Returns (), deliver notified (s\<lparr>loroDocRef := Some d1\<rparr>))))"

text \<open>
  The states the hook's own operations keep the store in: the React state \<open>content\<close> is
  the document's text, no transaction is open, a document without history is empty, and
  \<open>isInternalUpdateRef\<close> is clear.
\<close>

definition storeInv :: "useLoroEditor \<Rightarrow> bool" where
  "storeInv s =
     (\<not> isInternalUpdateRef s \<and>
      (case loroDocRef s of
         None \<Rightarrow> content s = []
       | Some d \<Rightarrow> content s = textState d \<and> pendingOps d = [] \<and>
                   (oplog d = [] \<longrightarrow> textState d = [])))"

section \<open>The editor component: cursor and content synchronization\<close>

text \<open>
  A range boundary point inside the editable element: the path of child indices from
  the element \<open>editorRef.current\<close> down to the container node, and the offset in that
  container (a character offset in a text node, a child index in an element).
\<close>

type_synonym boundaryPoint = "nat list \<times> nat"

text \<open>The length of \<open>Range.toString()\<close> over a whole node: the data of its text nodes.\<close>

fun textLength :: "node \<Rightarrow> nat" where
  "textLength (Text s) = length s"
| "textLength (Comment s) = 0"
| "textLength (Element t as cs) = sum_list (map textLength cs)"

text \<open>
  \<open>preCaretRange.toString().length\<close> for the range from the start of \<open>node\<close> to the
  boundary point; \<open>None\<close> when the boundary point does not exist in the tree
  (\<open>setEnd\<close> throws, and \<open>saveCursorPosition\<close> catches it).
\<close>

fun rangeLength :: "node \<Rightarrow> nat list \<Rightarrow> nat \<Rightarrow> nat option" where
  "rangeLength (Text s) [] off = (if off \<le> length s then Some off else None)"
| "rangeLength (Comment s) [] off = (if off \<le> length s then Some 0 else None)"
| "rangeLength (Element t as cs) [] off =
     (if off \<le> length cs then Some (sum_list (map textLength (take off cs))) else None)"
| "rangeLength (Element t as cs) (i # p) off =
     (if i < length cs
      then map_option (\<lambda>k. sum_list (map textLength (take i cs)) + k) (rangeLength (cs ! i) p off)
      else None)"
| "rangeLength (Text s) (i # p) off = None"
| "rangeLength (Comment s) (i # p) off = None"

text \<open>
  \<open>createRange(node, chars)\<close> of \<open>restoreCursorPosition\<close>. The counter \<open>chars.count\<close> is
  mutated during the walk, so the function returns the range (or null) together with
  the counter's final value. \<open>createRangeChildren\<close> is the \<open>for\<close> loop over
  \<open>node.childNodes\<close> from index \<open>i\<close> on.
\<close>

fun createRange :: "node \<Rightarrow> nat \<Rightarrow> boundaryPoint option \<times> nat"
  and createRangeChildren :: "node list \<Rightarrow> nat \<Rightarrow> nat \<Rightarrow> boundaryPoint option \<times> nat" where
  "createRange node count =
     (if count = 0 then (Some ([], 0), count)
      else case node of
        Text s \<Rightarrow> if count \<le> length s then (Some ([], count), count) else (None, count - length s)
      | Element t as cs \<Rightarrow> createRangeChildren cs 0 count
      | Comment s \<Rightarrow> (None, count))"
| "createRangeChildren [] i count = (None, count)"
| "createRangeChildren (c # cs) i count =
     (case createRange c count of
        (Some (p, off), count') \<Rightarrow> (Some (i # p, off), count')
      | (None, count') \<Rightarrow> createRangeChildren cs (i + 1) count')"

datatype timerTask = ClearIsUpdating

text \<open>
  The state of \<open>EditorComponent\<close> that the reconciler uses: the prop
  \<open>onContentChange\<close> (\<open>None\<close> when it is undefined; the callback is the caller's code,
  of which the model records how a call with the new HTML ends), the hook instance
  \<open>internalEditor\<close>, the child nodes of the \<open>div\<close> behind \<open>editorRef\<close> (\<open>None\<close> while
  \<open>editorRef.current\<close> is null, as it is when the virtualized view is rendered), the end
  boundary point of the selection's range (\<open>None\<close> when \<open>rangeCount\<close> is 0),
  \<open>isUpdatingRef.current\<close>, the state \<open>useVirtualization\<close>, and the callbacks queued
  with \<open>setTimeout\<close> that have not run yet.
\<close>

record editorComponent =
  onContentChange :: "(string \<Rightarrow> unit completion) option"
  internalEditor :: useLoroEditor
  editorRef :: "node list option"
  selection :: "boundaryPoint option"
  isUpdatingRef :: bool
  useVirtualization :: bool
  timers :: "timerTask list"

definition editorElement :: "node list \<Rightarrow> node" where
  "editorElement cs = Element ''div'' [] cs"

definition saveCursorPosition :: "editorComponent \<Rightarrow> nat option" where
  "saveCursorPosition c =
     (case selection c of
        None \<Rightarrow> None
      | Some (p, off) \<Rightarrow>
          (case editorRef c of
             None \<Rightarrow> None
           | Some cs \<Rightarrow> rangeLength (editorElement cs) p off))"

definition restoreCursorPosition :: "nat \<Rightarrow> editorComponent \<Rightarrow> editorComponent" where
  "restoreCursorPosition position c =
     (case editorRef c of
        None \<Rightarrow> c
      | Some cs \<Rightarrow>
          (case fst (createRange (editorElement cs) position) of
             None \<Rightarrow> c
           | Some r \<Rightarrow> c\<lparr>selection := Some r\<rparr>))"

text \<open>
  The effect ``Update editor content from Loro'', run when \<open>content\<close> changes; the new
  value of \<open>content\<close> is the argument \<open>content'\<close>. The assignment
  \<open>editorRef.current.innerHTML = content\<close> replaces the children by the parse of the
  content (the browser's parser is the parameter \<open>parser\<close>), and a range that was inside
  the element collapses to the element's start.
\<close>

definition contentSyncEffect ::
  "(string \<Rightarrow> node list) \<Rightarrow> string \<Rightarrow> editorComponent \<Rightarrow> editorComponent" where
  "contentSyncEffect parser content' c =
     (case editorRef c of
        None \<Rightarrow> c
      | Some cs \<Rightarrow>
          if isUpdatingRef c \<or> useVirtualization c then c
          else
            let cursorPos = saveCursorPosition c
            in if innerHTML cs \<noteq> content' then
                 let c1 = c\<lparr>editorRef := Some (parser content'),
                            selection := map_option (\<lambda>_. ([], 0)) (selection c)\<rparr>
                 in (case cursorPos of
                       None \<Rightarrow> c1
                     | Some position \<Rightarrow> restoreCursorPosition position c1)
               else c)"

text \<open>
  \<open>handleInput\<close>. Its \<open>updateContent\<close> is the prop \<open>onContentChange\<close> when that is
  given and the \<open>updateContent\<close> of the internal store otherwise. The part that opens
  the mention and slash menus only sets React state of those menus and is left out.
  There is no \<open>try\<close> around the call: when it throws, the handler is left before
  \<open>setTimeout\<close> is reached.
\<close>

definition handleInput :: "editorComponent \<Rightarrow> editorComponent" where
  "handleInput c =
     (case editorRef c of
        None \<Rightarrow> c
      | Some cs \<Rightarrow>
          let c1 = c\<lparr>isUpdatingRef := True\<rparr>;
              html = innerHTML cs
          in case (case onContentChange c1 of
                     Some callback \<Rightarrow> (callback html, internalEditor c1)
                   | None \<Rightarrow> updateContent html (internalEditor c1)) of
               (Throws e, st) \<Rightarrow> c1\<lparr>internalEditor := st\<rparr>
             | (Returns u, st) \<Rightarrow>
                 c1\<lparr>internalEditor := st, timers := timers c1 @ [ClearIsUpdating]\<rparr>)"

text \<open>
  The event loop runs one task at a time. An input event follows the browser's own edit
  of the editable element (the new child nodes and the new selection come with the
  event) and runs \<open>handleInput\<close>; a timer task runs the oldest queued callback
  \<open>() => { isUpdatingRef.current = false }\<close>; a change of \<open>content\<close> runs the
  synchronization effect. The component queues no microtask of its own (it uses no
  promise and no \<open>queueMicrotask\<close>) and nothing but these tasks writes
  \<open>isUpdatingRef\<close>, so the flag after a task is also the flag after the microtask
  checkpoint that follows it.
\<close>

datatype task = InputEvent "node list" "boundaryPoint option" | TimerTask | ContentChange string

fun runTimer :: "timerTask \<Rightarrow> editorComponent \<Rightarrow> editorComponent" where
  "runTimer ClearIsUpdating c = c\<lparr>isUpdatingRef := False\<rparr>"

fun runTask :: "(string \<Rightarrow> node list) \<Rightarrow> task \<Rightarrow> editorComponent \<Rightarrow> editorComponent" where
  "runTask parser (InputEvent ns sel) c =
     handleInput (c\<lparr>editorRef := map_option (\<lambda>_. ns) (editorRef c), selection := sel\<rparr>)"
| "runTask parser TimerTask c =
     (case timers c of [] \<Rightarrow> c | t # ts \<Rightarrow> runTimer t (c\<lparr>timers := ts\<rparr>))"
| "runTask parser (ContentChange content') c = contentSyncEffect parser content' c"

text \<open>
  The component after mounting in standard mode with the given prop, with an empty
  editable element.
\<close>

definition mountedComponent :: "nat \<Rightarrow> (string \<Rightarrow> unit completion) option \<Rightarrow> editorComponent" where
  "mountedComponent peer callback =
     \<lparr>onContentChange = callback,
      internalEditor = mountEffect peer initialEditor,
      editorRef = Some [],
      selection = None, isUpdatingRef = False, useVirtualization = False, timers = []\<rparr>"

text \<open>
  A callback that returns normally on every call, and the invariant of the two
  suppression flags under such a callback: \<open>isInternalUpdateRef\<close> is clear between
  tasks, and a set \<open>isUpdatingRef\<close> has a clearing callback pending.
\<close>

definition callbackReturns :: "(string \<Rightarrow> unit completion) option \<Rightarrow> bool" where
  "callbackReturns callback =
     (case callback of None \<Rightarrow> True | Some f \<Rightarrow> \<forall>html. f html = Returns ())"

definition flagInv :: "editorComponent \<Rightarrow> bool" where
  "flagInv c =
     (callbackReturns (onContentChange c) \<and>
      \<not> isInternalUpdateRef (internalEditor c) \<and>
      (isUpdatingRef c \<longrightarrow> timers c \<noteq> []))"

section \<open>Viewport windowing\<close>


text \<open>
  Modelled from the spec: the windowing engine. The component obtains it from the
  external package \<open>@tanstack/react-virtual\<close> (\<open>useVirtualizer\<close>), whose code is not among
  the sources; the definitions below follow section 4.3 of the specification. Each index
  has a size, the measured one where the cache \<open>measured\<close> has it and the default
  estimate otherwise; the cumulative offset of an index is the sum of the sizes before
  it; the first visible index is the smallest index whose cumulative offset is at least
  the scroll offset, the last visible index the largest one whose cumulative offset is
  at most the scroll offset plus the viewport height; both ends are expanded by the
  overscan and clamped to the indices \<open>0\<close> to \<open>n - 1\<close>. An item is an index with its
  start offset.
\<close>

definition itemSize :: "(nat \<Rightarrow> nat option) \<Rightarrow> nat \<Rightarrow> nat \<Rightarrow> nat" where
  "itemSize measured estimate i = (case measured i of Some h \<Rightarrow> h | None \<Rightarrow> estimate)"

definition itemStart :: "(nat \<Rightarrow> nat option) \<Rightarrow> nat \<Rightarrow> nat \<Rightarrow> nat" where
  "itemStart measured estimate i = sum_list (map (itemSize measured estimate) [0..<i])"

definition getTotalSize :: "(nat \<Rightarrow> nat option) \<Rightarrow> nat \<Rightarrow> nat \<Rightarrow> nat" where
  "getTotalSize measured estimate n = itemStart measured estimate n"






section \<open>Properties of the block segmenter\<close>

subsection \<open>Block ids\<close>

lemma digitChar_inj: "a < 10 \<Longrightarrow> b < 10 \<Longrightarrow> digitChar a = digitChar b \<Longrightarrow> a = b"
proof -
  have "distinct ''0123456789''" by simp
  then show "a < 10 \<Longrightarrow> b < 10 \<Longrightarrow> digitChar a = digitChar b \<Longrightarrow> a = b"
    unfolding digitChar_def by (subst (asm) nth_eq_iff_index_eq) simp_all
qed

lemma numberToString_length: "length (numberToString n) = 1 \<longleftrightarrow> n < 10"
proof (cases "n < 10")
  case True
  then show ?thesis by (simp add: numberToString.simps [of n])
next
  case False
  have "numberToString (n div 10) \<noteq> []"
    by (simp add: numberToString.simps [of "n div 10"])
  with False show ?thesis
    by (simp add: numberToString.simps [of n])
qed

lemma numberToString_inj: "numberToString m = numberToString n \<Longrightarrow> m = n"
proof (induction m arbitrary: n rule: numberToString.induct)
  case (1 m)
  show ?case
  proof (cases "m < 10")
    case True
    with "1.prems" have n: "n < 10"
      using numberToString_length [of m] numberToString_length [of n] by simp
    from True n "1.prems" show ?thesis
      by (simp add: numberToString.simps [of m] numberToString.simps [of n] digitChar_inj)
  next
    case False
    with "1.prems" have n: "\<not> n < 10"
      using numberToString_length [of m] numberToString_length [of n] by simp
    from False n "1.prems"
    have eq: "numberToString (m div 10) = numberToString (n div 10)"
      and d: "digitChar (m mod 10) = digitChar (n mod 10)"
      by (simp_all add: numberToString.simps [of m] numberToString.simps [of n])
    from "1.IH" [OF False eq] have "m div 10 = n div 10" .
    moreover from d have "m mod 10 = n mod 10"
      by (intro digitChar_inj) simp_all
    ultimately show ?thesis
      by (metis div_mult_mod_eq)
  qed
qed

lemma pushBlock_wellNumbered: "wellNumbered st \<Longrightarrow> wellNumbered (pushBlock c ty st)"
  by (cases st) (auto simp: wellNumbered_def pushBlock_def nth_append less_Suc_eq)

lemma fold_wellNumbered:
  assumes "\<And>c st. c \<in> set cs \<Longrightarrow> wellNumbered st \<Longrightarrow> wellNumbered (f c st)"
    and "wellNumbered st"
  shows "wellNumbered (fold f cs st)"
  using assms by (induction cs arbitrary: st) simp_all

lemma processNode_wellNumbered: "wellNumbered st \<Longrightarrow> wellNumbered (processNode n st)"
proof (induction n arbitrary: st)
  case (Element t as cs)
  have "wellNumbered (fold processNode cs st)"
    by (rule fold_wellNumbered) (use Element in auto)
  with Element.prems show ?case
    by (simp add: pushBlock_wellNumbered)
next
  case (Text s)
  then show ?case by (simp add: pushBlock_wellNumbered)
next
  case (Comment s)
  then show ?case by simp
qed

lemma segmentNodes_wellNumbered:
  "wellNumbered (fold processNode ns ([], 0))"
proof (rule fold_wellNumbered)
  show "wellNumbered ([], 0)" by (simp add: wellNumbered_def)
qed (rule processNode_wellNumbered)

lemma segmentNodes_ids:
  "i < length (segmentNodes ns) \<Longrightarrow> block_id (segmentNodes ns ! i) = ''block-'' @ numberToString i"
  using segmentNodes_wellNumbered [of ns] by (simp add: wellNumbered_def segmentNodes_def)

lemma parse_ids:
  "i < length (parseContentIntoBlocks parser html) \<Longrightarrow>
     block_id (parseContentIntoBlocks parser html ! i) = ''block-'' @ numberToString i"
  by (auto simp: parseContentIntoBlocks_def Let_def segmentNodes_ids emptyBlock_def
      numberToString.simps [of 0] digitChar_def)

text \<open>
  Claim C10. In the list returned by \<open>parseContentIntoBlocks\<close> the block at index
  \<open>i\<close> has the id \<open>block-i\<close> (decimal), for every parser result and every input;
  hence the ids of one segmentation pass are pairwise distinct.
\<close>

theorem block_ids_sequential:
  "(\<forall>i < length (parseContentIntoBlocks parser html).
      block_id (parseContentIntoBlocks parser html ! i) = ''block-'' @ numberToString i) \<and>
   distinct (map block_id (parseContentIntoBlocks parser html))"
proof (intro conjI allI impI)
  fix i assume "i < length (parseContentIntoBlocks parser html)"
  then show "block_id (parseContentIntoBlocks parser html ! i) = ''block-'' @ numberToString i"
    by (rule parse_ids)
next
  show "distinct (map block_id (parseContentIntoBlocks parser html))"
    unfolding distinct_conv_nth
  proof (intro allI impI)
    fix i j
    assume i: "i < length (map block_id (parseContentIntoBlocks parser html))"
      and j: "j < length (map block_id (parseContentIntoBlocks parser html))"
      and ne: "i \<noteq> j"
    show "map block_id (parseContentIntoBlocks parser html) ! i \<noteq>
          map block_id (parseContentIntoBlocks parser html) ! j"
      using i j ne parse_ids [of i parser html] parse_ids [of j parser html]
      by (auto dest: numberToString_inj)
  qed
qed

theorem block_ids_sequential_witness:
  "map block_id
     (parseContentIntoBlocks (\<lambda>_. [Element ''h1'' [] [Text ''a''], Text ''b'']) ''<h1>a</h1>b'') =
   [''block-0'', ''block-1'']"
proof -
  let ?bs = "parseContentIntoBlocks (\<lambda>_. [Element ''h1'' [] [Text ''a''], Text ''b'']) ''<h1>a</h1>b''"
  have len: "length ?bs = 2"
    by (simp add: parseContentIntoBlocks_def segmentNodes_def pushBlock_def trim_def
        isWhiteSpace_def isAsciiWhiteSpace_def)
  have "block_id (?bs ! 0) = ''block-'' @ numberToString 0"
    and "block_id (?bs ! 1) = ''block-'' @ numberToString 1"
    using block_ids_sequential [of "\<lambda>_. [Element ''h1'' [] [Text ''a''], Text ''b'']" "''<h1>a</h1>b''"]
      len by simp_all
  then have "map block_id ?bs = [''block-'' @ numberToString 0, ''block-'' @ numberToString 1]"
    using len by (auto simp: list_eq_iff_nth_eq less_Suc_eq numeral_2_eq_2)
  then show ?thesis
    by (simp add: numberToString.simps [of 0] numberToString.simps [of "Suc 0"] digitChar_def)
qed

subsection \<open>Contents and order\<close>

lemma dropWhile_all_iff: "(\<forall>c \<in> set (dropWhile P s). P c) \<longleftrightarrow> (\<forall>c \<in> set s. P c)"
proof
  assume a: "\<forall>c \<in> set (dropWhile P s). P c"
  have "dropWhile P s = []"
  proof (cases "dropWhile P s")
    case Nil
    then show ?thesis .
  next
    case (Cons x xs)
    then have "\<not> P (hd (dropWhile P s))"
      using hd_dropWhile [of P s] by simp
    moreover from Cons a have "P (hd (dropWhile P s))" by simp
    ultimately show ?thesis by simp
  qed
  then show "\<forall>c \<in> set s. P c" by simp
next
  assume "\<forall>c \<in> set s. P c"
  then show "\<forall>c \<in> set (dropWhile P s). P c"
    by (auto dest: set_dropWhileD)
qed

lemma trim_Nil_iff: "trim s = [] \<longleftrightarrow> (\<forall>c \<in> set s. isWhiteSpace c)"
  by (simp add: trim_def dropWhile_all_iff)

lemma stripWhiteSpace_append [simp]:
  "stripWhiteSpace (xs @ ys) = stripWhiteSpace xs @ stripWhiteSpace ys"
  by (simp add: stripWhiteSpace_def)

lemma blank_trim: "list_all isAsciiWhiteSpace s \<Longrightarrow> trim s = []"
  by (simp add: trim_Nil_iff isWhiteSpace_def list_all_iff)

lemma isAsciiWhiteSpace_plain:
  "isAsciiWhiteSpace c \<Longrightarrow>
     c \<noteq> CHR ''&'' \<and> c \<noteq> CHR 0xA0 \<and> c \<noteq> CHR ''<'' \<and> c \<noteq> CHR ''>''"
  by (auto simp: isAsciiWhiteSpace_def)

lemma escapeText_blank: "list_all isAsciiWhiteSpace s \<Longrightarrow> escapeText s = s"
  by (induction s) (simp_all add: isAsciiWhiteSpace_plain)

lemma stripWhiteSpace_blank:
  "list_all isAsciiWhiteSpace s \<Longrightarrow> stripWhiteSpace (escapeText s) = []"
  by (simp add: escapeText_blank stripWhiteSpace_def isWhiteSpace_def list_all_iff)

lemma pushBlock_contents:
  "map block_content (fst (pushBlock c ty st)) = map block_content (fst st) @ [c]"
  by (cases st) (simp add: pushBlock_def)

lemma fold_contents:
  assumes "\<And>c st. c \<in> set cs \<Longrightarrow>
     map block_content (fst (f c st)) =
       map block_content (fst st) @ map block_content (fst (f c ([], 0)))"
  shows "map block_content (fst (fold f cs st)) =
       map block_content (fst st) @ map block_content (fst (fold f cs ([], 0)))"
  using assms
proof (induction cs arbitrary: st)
  case Nil
  then show ?case by simp
next
  case (Cons c cs)
  have step: "map block_content (fst (fold f cs st')) =
       map block_content (fst st') @ map block_content (fst (fold f cs ([], 0)))" for st'
  proof (rule Cons.IH)
    fix c' st''
    assume "c' \<in> set cs"
    then have "c' \<in> set (c # cs)" by simp
    then show "map block_content (fst (f c' st'')) =
       map block_content (fst st'') @ map block_content (fst (f c' ([], 0)))"
      by (rule Cons.prems)
  qed
  have hd: "map block_content (fst (f c st)) =
       map block_content (fst st) @ map block_content (fst (f c ([], 0)))"
    by (rule Cons.prems) simp
  have "map block_content (fst (fold f (c # cs) st)) =
      map block_content (fst (fold f cs (f c st)))"
    by simp
  also have "\<dots> = map block_content (fst (f c st)) @ map block_content (fst (fold f cs ([], 0)))"
    by (rule step)
  also have "\<dots> = map block_content (fst st) @
      (map block_content (fst (f c ([], 0))) @ map block_content (fst (fold f cs ([], 0))))"
    by (simp only: hd append_assoc)
  also have "map block_content (fst (f c ([], 0))) @ map block_content (fst (fold f cs ([], 0)))
      = map block_content (fst (fold f cs (f c ([], 0))))"
    by (rule step [symmetric])
  also have "fold f cs (f c ([], 0)) = fold f (c # cs) ([], 0)"
    by simp
  finally show ?case .
qed

lemma processNode_contents:
  "map block_content (fst (processNode n st)) =
     map block_content (fst st) @ map block_content (fst (processNode n ([], 0)))"
proof (induction n arbitrary: st)
  case (Element t as cs)
  have f: "map block_content (fst (fold processNode cs st')) =
       map block_content (fst st') @ map block_content (fst (fold processNode cs ([], 0)))" for st'
    by (rule fold_contents) (rule Element.IH)
  show ?case
    using f [of st] by (simp add: pushBlock_contents)
next
  case (Text s)
  then show ?case by (simp add: pushBlock_contents)
next
  case (Comment s)
  then show ?case by simp
qed

lemma segmentNodes_append:
  "map block_content (segmentNodes (xs @ ys)) =
     map block_content (segmentNodes xs) @ map block_content (segmentNodes ys)"
proof -
  have "map block_content (fst (fold processNode ys (fold processNode xs ([], 0)))) =
      map block_content (fst (fold processNode xs ([], 0))) @
      map block_content (fst (fold processNode ys ([], 0)))"
    by (rule fold_contents) (rule processNode_contents)
  then show ?thesis
    by (simp add: segmentNodes_def)
qed

lemma segmentNodes_Cons:
  "map block_content (segmentNodes (n # ns)) =
     map block_content (segmentNodes [n]) @ map block_content (segmentNodes ns)"
  using segmentNodes_append [of "[n]" ns] by simp

lemma segment_blockElement:
  "isBlockElement n \<Longrightarrow> map block_content (segmentNodes [n]) = [outerHTML n]"
  by (cases n) (auto simp: isBlockElement_def segmentNodes_def pushBlock_contents)

lemma segment_blankText:
  "isBlankText n \<Longrightarrow> map block_content (segmentNodes [n]) = []"
proof (cases n)
  case (Text s)
  assume "isBlankText n"
  with Text have "trim s = []" by (simp add: isBlankText_def blank_trim)
  with Text show ?thesis by (simp add: segmentNodes_def)
qed (simp_all add: isBlankText_def)

lemma segment_classified:
  "\<forall>n \<in> set ns. isBlockElement n \<or> isBlankText n \<Longrightarrow>
     map block_content (segmentNodes ns) = map outerHTML (filter isBlockElement ns)"
proof (induction ns)
  case Nil
  then show ?case by (simp add: segmentNodes_def)
next
  case (Cons n ns)
  then have IH: "map block_content (segmentNodes ns) = map outerHTML (filter isBlockElement ns)"
    by simp
  from Cons.prems have "isBlockElement n \<or> isBlankText n" by simp
  then show ?case
  proof
    assume "isBlockElement n"
    then show ?thesis
      using segmentNodes_Cons [of n ns] IH by (simp add: segment_blockElement)
  next
    assume b: "isBlankText n"
    then have "\<not> isBlockElement n"
      by (cases n) (simp_all add: isBlankText_def isBlockElement_def)
    with b show ?thesis
      using segmentNodes_Cons [of n ns] IH by (simp add: segment_blankText)
  qed
qed

lemma strip_innerHTML:
  "\<forall>n \<in> set ns. isBlockElement n \<or> isBlankText n \<Longrightarrow>
     stripWhiteSpace (innerHTML (filter isBlockElement ns)) = stripWhiteSpace (innerHTML ns)"
proof (induction ns)
  case Nil
  then show ?case by simp
next
  case (Cons n ns)
  then have IH: "stripWhiteSpace (innerHTML (filter isBlockElement ns)) = stripWhiteSpace (innerHTML ns)"
    by simp
  show ?case
  proof (cases "isBlockElement n")
    case True
    with IH show ?thesis by (simp add: innerHTML_def)
  next
    case False
    with Cons.prems have "isBlankText n" by simp
    then have "stripWhiteSpace (outerHTML n) = []"
      by (cases n) (simp_all add: isBlankText_def stripWhiteSpace_blank)
    with False IH show ?thesis by (simp add: innerHTML_def)
  qed
qed

lemma segmentNodes_concat:
  "map block_content (segmentNodes ns) =
     concat (map (\<lambda>n. map block_content (segmentNodes [n])) ns)"
proof (induction ns)
  case Nil
  show ?case by (simp add: segmentNodes_def)
next
  case (Cons n ns)
  have "map block_content (segmentNodes (n # ns)) =
      map block_content (segmentNodes [n]) @ map block_content (segmentNodes ns)"
    by (rule segmentNodes_Cons)
  with Cons.IH show ?case by simp
qed

lemma segmentNodes_wrapper:
  "\<not> isBlockElement (Element t as cs) \<Longrightarrow> segmentNodes [Element t as cs] = segmentNodes cs"
  by (simp add: isBlockElement_def segmentNodes_def)

lemma segment_node: "map block_content (segmentNodes [n]) = map blockSource (sourceNodes n)"
proof (induction n)
  case (Element t as cs)
  show ?case
  proof (cases "isBlockElement (Element t as cs)")
    case True
    then show ?thesis by (simp add: segment_blockElement)
  next
    case False
    have "map block_content (segmentNodes cs) =
        concat (map (\<lambda>n. map block_content (segmentNodes [n])) cs)"
      by (rule segmentNodes_concat)
    also have "\<dots> = concat (map (\<lambda>n. map blockSource (sourceNodes n)) cs)"
      by (rule arg_cong [where f = concat], rule map_cong [OF refl]) (rule Element.IH)
    also have "\<dots> = map blockSource (concat (map sourceNodes cs))"
      by (simp add: map_concat comp_def)
    finally show ?thesis
      using False by (simp add: segmentNodes_wrapper)
  qed
next
  case (Text s)
  show ?case by (simp add: segmentNodes_def pushBlock_contents)
next
  case (Comment s)
  show ?case by (simp add: segmentNodes_def)
qed

lemma segmentNodes_sourceNodes:
  "map block_content (segmentNodes ns) = map blockSource (concat (map sourceNodes ns))"
proof -
  have "map block_content (segmentNodes ns) =
      concat (map (\<lambda>n. map blockSource (sourceNodes n)) ns)"
    by (simp add: segmentNodes_concat [of ns] segment_node)
  then show ?thesis
    by (simp add: map_concat comp_def)
qed

lemma subseq_concat_map:
  "(\<And>x. x \<in> set xs \<Longrightarrow> subseq (f x) (g x)) \<Longrightarrow>
     subseq (concat (map f xs)) (concat (map g xs))"
  by (induction xs) (simp_all add: list_emb_append_mono)

lemma sourceNodes_treeOrder: "subseq (sourceNodes n) (treeOrder n)"
proof (induction n)
  case (Element t as cs)
  have "subseq (concat (map sourceNodes cs)) (concat (map treeOrder cs))"
    by (rule subseq_concat_map) (rule Element.IH)
  then show ?case by (simp add: list_emb_Cons)
qed simp_all

text \<open>
  Claim C5, as amended. For every input the contents of the returned blocks are, in this
  order, the content fragments of the nodes \<open>sourceNodes\<close> lists (or the one placeholder
  when there is none): classified elements as their serialized subtree, text with
  content as a paragraph around the text, every other element flattened into its
  children and itself dropped. These nodes keep the document order of the parsed tree.
  So the segmentation preserves order for every input, and it is lossless where nothing
  is flattened: when every top-level node is a classified element (\<open>h1\<close> to \<open>h6\<close>,
  \<open>ul\<close>, \<open>ol\<close>, \<open>pre\<close>, \<open>blockquote\<close>, \<open>p\<close>, \<open>div\<close>) or a text node of ASCII
  white space only, and at least one is such an element, the concatenation of the
  blocks' contents is exactly the serialization of those elements, which for a
  well-formed input (one that is the serialization of its own parse) is the input up to
  white space.
\<close>

theorem segmentation_order_and_losslessness:
  "map block_content (parseContentIntoBlocks parser html) =
     (if concat (map sourceNodes (parser html)) = [] then [''<p><br/></p>'']
      else map blockSource (concat (map sourceNodes (parser html)))) \<and>
   subseq (concat (map sourceNodes (parser html))) (concat (map treeOrder (parser html))) \<and>
   ((\<forall>n \<in> set (parser html). isBlockElement n \<or> isBlankText n) \<and>
    (\<exists>n \<in> set (parser html). isBlockElement n) \<longrightarrow>
      concat (map block_content (parseContentIntoBlocks parser html)) =
        innerHTML (filter isBlockElement (parser html)) \<and>
      (innerHTML (parser html) = html \<longrightarrow>
         stripWhiteSpace (concat (map block_content (parseContentIntoBlocks parser html))) =
           stripWhiteSpace html))"
proof (intro conjI impI)
  have src: "map block_content (segmentNodes (parser html)) =
      map blockSource (concat (map sourceNodes (parser html)))"
    by (rule segmentNodes_sourceNodes)
  show "map block_content (parseContentIntoBlocks parser html) =
     (if concat (map sourceNodes (parser html)) = [] then [''<p><br/></p>'']
      else map blockSource (concat (map sourceNodes (parser html))))"
  proof (cases "segmentNodes (parser html) = []")
    case True
    with src have "concat (map sourceNodes (parser html)) = []"
      by (simp del: concat_eq_Nil_conv)
    with True show ?thesis
      by (simp add: parseContentIntoBlocks_def Let_def emptyBlock_def del: concat_eq_Nil_conv)
  next
    case False
    then have "map block_content (segmentNodes (parser html)) \<noteq> []" by simp
    then have "concat (map sourceNodes (parser html)) \<noteq> []"
      unfolding src by (simp del: concat_eq_Nil_conv)
    with False src show ?thesis
      by (simp add: parseContentIntoBlocks_def Let_def del: concat_eq_Nil_conv)
  qed
next
  show "subseq (concat (map sourceNodes (parser html))) (concat (map treeOrder (parser html)))"
    by (rule subseq_concat_map) (rule sourceNodes_treeOrder)
next
  assume h: "(\<forall>n \<in> set (parser html). isBlockElement n \<or> isBlankText n) \<and>
    (\<exists>n \<in> set (parser html). isBlockElement n)"
  then have cls: "\<forall>n \<in> set (parser html). isBlockElement n \<or> isBlankText n"
    and ne: "\<exists>n \<in> set (parser html). isBlockElement n"
    by simp_all
  have c: "map block_content (segmentNodes (parser html)) =
      map outerHTML (filter isBlockElement (parser html))"
    using cls by (rule segment_classified)
  from ne have "filter isBlockElement (parser html) \<noteq> []"
    by (simp add: filter_empty_conv)
  with c have "segmentNodes (parser html) \<noteq> []" by auto
  then have p: "parseContentIntoBlocks parser html = segmentNodes (parser html)"
    by (simp add: parseContentIntoBlocks_def Let_def)
  show 1: "concat (map block_content (parseContentIntoBlocks parser html)) =
           innerHTML (filter isBlockElement (parser html))"
    by (simp add: p c innerHTML_def)
  assume wf: "innerHTML (parser html) = html"
  show "stripWhiteSpace (concat (map block_content (parseContentIntoBlocks parser html))) =
           stripWhiteSpace html"
    using strip_innerHTML [OF cls] wf by (simp add: 1)
qed

theorem segmentation_order_and_losslessness_witness:
  "map block_content
     (parseContentIntoBlocks
        (\<lambda>_. [Element ''span'' [] [Element ''h2'' [] [Text ''t''], Element ''p'' [] [Text ''u'']]])
        ''<span><h2>t</h2><p>u</p></span>'') = [''<h2>t</h2>'', ''<p>u</p>''] \<and>
   concat (map block_content
     (parseContentIntoBlocks
        (\<lambda>_. [Element ''h1'' [] [Text ''a''], Text '' '', Element ''p'' [] [Text ''b'']])
        ''<h1>a</h1> <p>b</p>'')) = ''<h1>a</h1><p>b</p>''"
proof -
  let ?q = "\<lambda>_::string. [Element ''span'' [] [Element ''h2'' [] [Text ''t''], Element ''p'' [] [Text ''u'']]]"
  let ?p = "\<lambda>_::string. [Element ''h1'' [] [Text ''a''], Text '' '', Element ''p'' [] [Text ''b'']]"
  let ?h = "''<h1>a</h1> <p>b</p>''"
  have a: "map block_content (parseContentIntoBlocks ?q ''<span><h2>t</h2><p>u</p></span>'') =
      [''<h2>t</h2>'', ''<p>u</p>'']"
    using segmentation_order_and_losslessness [of ?q "''<span><h2>t</h2><p>u</p></span>''"]
    by (simp add: isBlockElement_def voidElements_def serializeAttrs_def)
  have cls: "(\<forall>n \<in> set (?p ?h). isBlockElement n \<or> isBlankText n) \<and>
      (\<exists>n \<in> set (?p ?h). isBlockElement n)"
    by (simp add: isBlockElement_def isBlankText_def isAsciiWhiteSpace_def)
  from segmentation_order_and_losslessness [of ?p ?h] cls
  have "concat (map block_content (parseContentIntoBlocks ?p ?h)) =
      innerHTML (filter isBlockElement (?p ?h))"
    by blast
  then have b: "concat (map block_content (parseContentIntoBlocks ?p ?h)) = ''<h1>a</h1><p>b</p>''"
    by (simp add: innerHTML_def isBlockElement_def voidElements_def serializeAttrs_def)
  from a b show ?thesis by simp
qed

text \<open>
  The claim as stated fails: an inline wrapper is flattened away. The input
  \<open><b>x</b>\<close> is well-formed, and its only block is \<open><p>x</p>\<close>, which differs
  from the input even after all white space is deleted.
\<close>

theorem segmentation_lossless_counterexample: "\<not> (\<forall>parser html. innerHTML (parser html) = html \<longrightarrow>
     stripWhiteSpace (concat (map block_content (parseContentIntoBlocks parser html))) = stripWhiteSpace html)"
proof
  assume a: "\<forall>parser html. innerHTML (parser html) = html \<longrightarrow>
     stripWhiteSpace (concat (map block_content (parseContentIntoBlocks parser html))) = stripWhiteSpace html"
  have w: "innerHTML ((\<lambda>_. [Element ''b'' [] [Text ''x'']]) ''<b>x</b>'') = ''<b>x</b>''"
    by (simp add: innerHTML_def voidElements_def serializeAttrs_def)
  from a [rule_format, OF w] show False
    by (simp add: parseContentIntoBlocks_def segmentNodes_def pushBlock_def
      trim_def isWhiteSpace_def isAsciiWhiteSpace_def stripWhiteSpace_def)
qed

subsection \<open>The placeholder block\<close>

text \<open>
  Claim C6. \<open>parseContentIntoBlocks\<close> never returns an empty list: when the traversal
  emits no block, the result is exactly the one placeholder block, in particular for an
  empty body.
\<close>

theorem parseContentIntoBlocks_never_empty:
  "parseContentIntoBlocks parser html \<noteq> [] \<and>
   parseContentIntoBlocks parser html =
     (if segmentNodes (parser html) = [] then [emptyBlock] else segmentNodes (parser html)) \<and>
   (parser html = [] \<longrightarrow> parseContentIntoBlocks parser html = [emptyBlock])"
  by (simp add: parseContentIntoBlocks_def Let_def segmentNodes_def)

theorem parseContentIntoBlocks_never_empty_witness:
  "parseContentIntoBlocks (\<lambda>_. []) [] = [emptyBlock]"
  using parseContentIntoBlocks_never_empty [of "\<lambda>_. []" "[]"] by (simp add: segmentNodes_def)

section \<open>Properties of the document store\<close>

subsection \<open>Reachable states of the store\<close>

lemma storeInv_initialEditor: "storeInv initialEditor"
  by (simp add: storeInv_def initialEditor_def)

lemma storeInv_mountEffect: "storeInv s \<Longrightarrow> loroDocRef s = None \<Longrightarrow> storeInv (mountEffect peer s)"
  by (simp add: storeInv_def mountEffect_def newLoro_def)

lemma storeInv_updateContent: "storeInv s \<Longrightarrow> storeInv (snd (updateContent x s))"
  by (auto simp: storeInv_def updateContent_def textDelete_def textInsert_def Let_def
      deliver_def subscriber_def commit_def split: option.splits)

lemma storeInv_insertText: "storeInv s \<Longrightarrow> storeInv (snd (insertText t p s))"
  by (auto simp: storeInv_def insertText_def textInsert_def Let_def
      deliver_def subscriber_def commit_def split: option.splits)

lemma storeInv_deleteText: "storeInv s \<Longrightarrow> storeInv (snd (deleteText a n s))"
  by (auto simp: storeInv_def deleteText_def textDelete_def Let_def
      deliver_def subscriber_def commit_def split: option.splits)

lemma storeInv_loadSnapshot: "storeInv s \<Longrightarrow> storeInv (snd (loadSnapshot lib bytes s))"
  by (auto simp: storeInv_def loadSnapshot_def importSnapshot_def Let_def
      deliver_def subscriber_def split: option.splits)

subsection \<open>updateContent\<close>

text \<open>
  Claim C1, as amended. When the document's text is already \<open>x\<close>, \<open>updateContent x\<close>
  returns normally and leaves the content equal to \<open>x\<close> (in the React state and in the
  document), and clears \<open>isInternalUpdateRef\<close>. The commit is empty, and no subscriber
  is notified, only when \<open>x\<close> is empty (and no transaction was open); for a non-empty
  \<open>x\<close> the call deletes the whole text and inserts it again, commits that change to the
  history and notifies the subscribers once. Without a document the call does nothing.
\<close>

theorem updateContent_same_content:
  assumes "loroDocRef s = Some d" and "textState d = x"
  shows "fst (updateContent x s) = Returns () \<and>
     content (snd (updateContent x s)) = x \<and>
     updateContent x (s\<lparr>loroDocRef := None\<rparr>) = (Returns (), s\<lparr>loroDocRef := None\<rparr>) \<and>
     map_option textState (loroDocRef (snd (updateContent x s))) = Some x \<and>
     \<not> isInternalUpdateRef (snd (updateContent x s)) \<and>
     map_option oplog (loroDocRef (snd (updateContent x s))) =
       Some (if x = [] \<and> pendingOps d = [] then oplog d
             else oplog d @ [((peerId d, length (oplog d)),
                    pendingOps d @ (if x = [] then [] else [OpDelete 0 (length x), OpInsert 0 x]))]) \<and>
     eventsDelivered (snd (updateContent x s)) =
       eventsDelivered s + (if x = [] \<and> pendingOps d = [] then 0 else 1)"
  using assms
  by (auto simp: updateContent_def textDelete_def textInsert_def Let_def deliver_def
      subscriber_def commit_def)

theorem updateContent_same_content_witness:
  "eventsDelivered (snd (updateContent []
      \<lparr>loroDocRef = Some \<lparr>peerId = 1, textState = [], pendingOps = [], oplog = []\<rparr>,
       content = [], isInternalUpdateRef = False, eventsDelivered = 0\<rparr>)) = 0 \<and>
   eventsDelivered (snd (updateContent ''a''
      \<lparr>loroDocRef = Some \<lparr>peerId = 1, textState = ''a'', pendingOps = [],
         oplog = [((1, 0), [OpInsert 0 ''a''])]\<rparr>,
       content = ''a'', isInternalUpdateRef = False, eventsDelivered = 1\<rparr>)) = 2"
  using
    updateContent_same_content [of
      "\<lparr>loroDocRef = Some \<lparr>peerId = 1, textState = [], pendingOps = [], oplog = []\<rparr>,
        content = [], isInternalUpdateRef = False, eventsDelivered = 0\<rparr>"
      "\<lparr>peerId = 1, textState = [], pendingOps = [], oplog = []\<rparr>" "[]"]
    updateContent_same_content [of
      "\<lparr>loroDocRef = Some \<lparr>peerId = 1, textState = ''a'', pendingOps = [],
         oplog = [((1, 0), [OpInsert 0 ''a''])]\<rparr>,
        content = ''a'', isInternalUpdateRef = False, eventsDelivered = 1\<rparr>"
      "\<lparr>peerId = 1, textState = ''a'', pendingOps = [], oplog = [((1, 0), [OpInsert 0 ''a''])]\<rparr>"
      "''a''"]
  by simp

text \<open>
  The claim as stated fails for every non-empty content: on a store holding \<open>a\<close>,
  \<open>updateContent a\<close> appends a change (delete 0 1, insert 0 a) to the history and the
  subscribed callback is called once more (2 calls instead of 1).
\<close>

theorem updateContent_noop_counterexample:
  "updateContent ''a''
      \<lparr>loroDocRef = Some \<lparr>peerId = 1, textState = ''a'', pendingOps = [],
         oplog = [((1, 0), [OpInsert 0 ''a''])]\<rparr>,
       content = ''a'', isInternalUpdateRef = False, eventsDelivered = 1\<rparr> =
   (Returns (),
      \<lparr>loroDocRef = Some \<lparr>peerId = 1, textState = ''a'', pendingOps = [],
         oplog = [((1, 0), [OpInsert 0 ''a'']), ((1, 1), [OpDelete 0 1, OpInsert 0 ''a''])]\<rparr>,
       content = ''a'', isInternalUpdateRef = False, eventsDelivered = 2\<rparr>)"
  by (simp add: updateContent_def textDelete_def textInsert_def commit_def deliver_def
      subscriber_def)

subsection \<open>loadSnapshot\<close>

text \<open>
  Claim C2, as amended. For bytes the decoder rejects, \<open>loadSnapshot\<close> leaves the whole
  store, and so its content, unchanged. It returns no failure value: with a document the
  library's decode error propagates to the caller as an exception, and without a
  document the call returns silently.
\<close>

theorem loadSnapshot_malformed:
  assumes "decodeSnapshot lib bytes = None"
  shows "loadSnapshot lib bytes s =
     ((case loroDocRef s of None \<Rightarrow> Returns () | Some d \<Rightarrow> Throws DecodeError), s)"
  using assms
  by (simp add: loadSnapshot_def importSnapshot_def split: option.splits)

theorem loadSnapshot_malformed_witness:
  "loadSnapshot \<lparr>encodeSnapshot = (\<lambda>_. []), decodeSnapshot = (\<lambda>_. None),
       mergeConcurrent = (\<lambda>d sn. fst sn)\<rparr> [0xFF, 0x00]
     \<lparr>loroDocRef = Some \<lparr>peerId = 1, textState = ''a'', pendingOps = [],
         oplog = [((1, 0), [OpInsert 0 ''a''])]\<rparr>,
       content = ''a'', isInternalUpdateRef = False, eventsDelivered = 1\<rparr> =
   (Throws DecodeError,
     \<lparr>loroDocRef = Some \<lparr>peerId = 1, textState = ''a'', pendingOps = [],
         oplog = [((1, 0), [OpInsert 0 ''a''])]\<rparr>,
       content = ''a'', isInternalUpdateRef = False, eventsDelivered = 1\<rparr>)"
  using loadSnapshot_malformed [of
      "\<lparr>encodeSnapshot = (\<lambda>_. []), decodeSnapshot = (\<lambda>_. None),
        mergeConcurrent = (\<lambda>d sn. fst sn)\<rparr>" "[0xFF, 0x00]"
      "\<lparr>loroDocRef = Some \<lparr>peerId = 1, textState = ''a'', pendingOps = [],
         oplog = [((1, 0), [OpInsert 0 ''a''])]\<rparr>,
       content = ''a'', isInternalUpdateRef = False, eventsDelivered = 1\<rparr>"]
  by simp

text \<open>
  The claim as stated fails: on an initialized store the malformed import ends in a
  thrown error, not in a returned failure value, and on a store without a document it
  returns normally and reports nothing.
\<close>

theorem loadSnapshot_failure_result_counterexample:
  "fst (loadSnapshot \<lparr>encodeSnapshot = (\<lambda>_. []), decodeSnapshot = (\<lambda>_. None),
       mergeConcurrent = (\<lambda>d sn. fst sn)\<rparr> [0xFF, 0x00]
     \<lparr>loroDocRef = Some \<lparr>peerId = 1, textState = ''a'', pendingOps = [],
         oplog = [((1, 0), [OpInsert 0 ''a''])]\<rparr>,
       content = ''a'', isInternalUpdateRef = False, eventsDelivered = 1\<rparr>) = Throws DecodeError \<and>
   fst (loadSnapshot \<lparr>encodeSnapshot = (\<lambda>_. []), decodeSnapshot = (\<lambda>_. None),
       mergeConcurrent = (\<lambda>d sn. fst sn)\<rparr> [0xFF, 0x00] initialEditor) = Returns ()"
  by (simp add: loadSnapshot_def importSnapshot_def initialEditor_def)

text \<open>
  Claim C3. Let a store in a state its operations can leave it in hold the content
  \<open>C\<close>, and let the library's codec read back the snapshot of its document. Then
  \<open>getSnapshot\<close> returns bytes, and \<open>loadSnapshot\<close> of these bytes into a freshly
  mounted store returns normally and leaves that store with the content \<open>C\<close>, in the
  React state and in the document.
\<close>

theorem snapshot_round_trip:
  assumes doc: "loroDocRef s = Some d"
    and inv: "storeInv s"
    and codec: "decodeSnapshot lib (encodeSnapshot lib (textState d, oplog d)) =
       Some (textState d, oplog d)"
  shows "\<exists>bytes. getSnapshot lib s = Some bytes \<and>
     fst (loadSnapshot lib bytes (mountEffect peer initialEditor)) = Returns () \<and>
     content (snd (loadSnapshot lib bytes (mountEffect peer initialEditor))) = content s \<and>
     map_option textState (loroDocRef (snd (loadSnapshot lib bytes (mountEffect peer initialEditor))))
       = Some (content s)"
proof -
  from doc inv have c: "content s = textState d" and e: "oplog d = [] \<longrightarrow> textState d = []"
    by (simp_all add: storeInv_def)
  have g: "getSnapshot lib s = Some (encodeSnapshot lib (textState d, oplog d))"
    using doc by (simp add: getSnapshot_def exportSnapshot_def)
  have "fst (loadSnapshot lib (encodeSnapshot lib (textState d, oplog d))
          (mountEffect peer initialEditor)) = Returns () \<and>
     content (snd (loadSnapshot lib (encodeSnapshot lib (textState d, oplog d))
          (mountEffect peer initialEditor))) = textState d \<and>
     map_option textState (loroDocRef (snd (loadSnapshot lib
          (encodeSnapshot lib (textState d, oplog d)) (mountEffect peer initialEditor))))
       = Some (textState d)"
    using codec e
    by (cases "oplog d = []")
      (simp_all add: loadSnapshot_def importSnapshot_def mountEffect_def initialEditor_def
        newLoro_def deliver_def subscriber_def)
  with g c show ?thesis by simp
qed

theorem snapshot_round_trip_witness:
  "\<exists>bytes.
     getSnapshot \<lparr>encodeSnapshot = (\<lambda>_. [0x6C, 0x6F]),
         decodeSnapshot = (\<lambda>_. Some (''ab'', [((1, 0), [OpInsert 0 ''ab''])])),
         mergeConcurrent = (\<lambda>d sn. fst sn)\<rparr>
       \<lparr>loroDocRef = Some \<lparr>peerId = 1, textState = ''ab'', pendingOps = [],
          oplog = [((1, 0), [OpInsert 0 ''ab''])]\<rparr>,
        content = ''ab'', isInternalUpdateRef = False, eventsDelivered = 1\<rparr> = Some bytes \<and>
     content (snd (loadSnapshot \<lparr>encodeSnapshot = (\<lambda>_. [0x6C, 0x6F]),
         decodeSnapshot = (\<lambda>_. Some (''ab'', [((1, 0), [OpInsert 0 ''ab''])])),
         mergeConcurrent = (\<lambda>d sn. fst sn)\<rparr> bytes (mountEffect 2 initialEditor))) = ''ab''"
proof -
  let ?lib = "\<lparr>encodeSnapshot = (\<lambda>_. [0x6C, 0x6F]),
         decodeSnapshot = (\<lambda>_. Some (''ab'', [((1, 0), [OpInsert 0 ''ab''])])),
         mergeConcurrent = (\<lambda>d sn. fst sn)\<rparr>"
  let ?d = "\<lparr>peerId = 1, textState = ''ab'', pendingOps = [],
          oplog = [((1, 0), [OpInsert 0 ''ab''])]\<rparr>"
  let ?s = "\<lparr>loroDocRef = Some ?d, content = ''ab'', isInternalUpdateRef = False,
          eventsDelivered = 1\<rparr>"
  have doc: "loroDocRef ?s = Some ?d" by simp
  have inv: "storeInv ?s" by (simp add: storeInv_def)
  have codec: "decodeSnapshot ?lib (encodeSnapshot ?lib (textState ?d, oplog ?d)) =
       Some (textState ?d, oplog ?d)" by simp
  from snapshot_round_trip [OF doc inv codec, of 2] show ?thesis by auto
qed

subsection \<open>insertText and deleteText\<close>

lemma toIndex_wraps: "toIndex (2 ^ 32) = 0" "toIndex (- 1) = 2 ^ 32 - 1" "toIndex 5 = 5"
  by (simp_all add: toIndex_def)

text \<open>
  Claim C4, as amended. Without a document \<open>insertText\<close> and \<open>deleteText\<close> return
  silently and change nothing. With a document the position, start and length are
  converted to 32-bit unsigned indices and passed to the library, never clamped to the
  bounds of the content. A non-empty text is spliced in at the position's index when
  that is within the text (at the end of the text when no position is given), and a
  range of non-zero length is deleted when it ends within the text; when the index lies
  behind the end of the text, or the range ends there (its end being below \<open>2^32\<close>), the
  library's error propagates as an exception and the store is unchanged.
\<close>

theorem insertText_deleteText_offsets:
  "(loroDocRef s = None \<longrightarrow>
      insertText txt position s = (Returns (), s) \<and> deleteText start len s = (Returns (), s)) \<and>
   (\<forall>d. loroDocRef s = Some d \<and> txt \<noteq> [] \<longrightarrow>
      (let insertPos = (case position of None \<Rightarrow> length (textState d) | Some p \<Rightarrow> toIndex p)
       in if insertPos \<le> length (textState d)
          then fst (insertText txt position s) = Returns () \<and>
               map_option textState (loroDocRef (snd (insertText txt position s))) =
                 Some (take insertPos (textState d) @ txt @ drop insertPos (textState d))
          else insertText txt position s = (Throws OutOfBound, s))) \<and>
   (\<forall>d. loroDocRef s = Some d \<and> toIndex len \<noteq> 0 \<and> toIndex start + toIndex len < 2 ^ 32 \<longrightarrow>
      (if toIndex start + toIndex len \<le> length (textState d)
       then fst (deleteText start len s) = Returns () \<and>
            map_option textState (loroDocRef (snd (deleteText start len s))) =
              Some (take (toIndex start) (textState d) @
                    drop (toIndex start + toIndex len) (textState d))
       else deleteText start len s = (Throws OutOfBound, s)))"
  by (auto simp: insertText_def deleteText_def textInsert_def textDelete_def Let_def commit_def
      deliver_def subscriber_def split: option.splits)

theorem insertText_deleteText_offsets_witness:
  "map_option textState (loroDocRef (snd (insertText ''x'' (Some 1)
      \<lparr>loroDocRef = Some \<lparr>peerId = 1, textState = ''ab'', pendingOps = [],
         oplog = [((1, 0), [OpInsert 0 ''ab''])]\<rparr>,
       content = ''ab'', isInternalUpdateRef = False, eventsDelivered = 1\<rparr>))) = Some ''axb'' \<and>
   map_option textState (loroDocRef (snd (insertText ''x'' (Some (2 ^ 32))
      \<lparr>loroDocRef = Some \<lparr>peerId = 1, textState = ''ab'', pendingOps = [],
         oplog = [((1, 0), [OpInsert 0 ''ab''])]\<rparr>,
       content = ''ab'', isInternalUpdateRef = False, eventsDelivered = 1\<rparr>))) = Some ''xab'' \<and>
   map_option textState (loroDocRef (snd (deleteText 0 1
      \<lparr>loroDocRef = Some \<lparr>peerId = 1, textState = ''ab'', pendingOps = [],
         oplog = [((1, 0), [OpInsert 0 ''ab''])]\<rparr>,
       content = ''ab'', isInternalUpdateRef = False, eventsDelivered = 1\<rparr>))) = Some ''b''"
  using insertText_deleteText_offsets [of
      "\<lparr>loroDocRef = Some \<lparr>peerId = 1, textState = ''ab'', pendingOps = [],
         oplog = [((1, 0), [OpInsert 0 ''ab''])]\<rparr>,
       content = ''ab'', isInternalUpdateRef = False, eventsDelivered = 1\<rparr>"
      "''x''" "Some 1" 0 1]
    insertText_deleteText_offsets [of
      "\<lparr>loroDocRef = Some \<lparr>peerId = 1, textState = ''ab'', pendingOps = [],
         oplog = [((1, 0), [OpInsert 0 ''ab''])]\<rparr>,
       content = ''ab'', isInternalUpdateRef = False, eventsDelivered = 1\<rparr>"
      "''x''" "Some (2 ^ 32)" 0 1]
  by (simp add: toIndex_def)

text \<open>
  The claim as stated fails: on the content \<open>ab\<close>, inserting at position 5 and
  deleting 5 characters from offset 1 both end in the error \<open>OutOfBound\<close> and leave the
  content \<open>ab\<close>; clamping would give \<open>abx\<close> and \<open>a\<close>.
\<close>

theorem insertText_clamp_counterexample:
  "insertText ''x'' (Some 5)
      \<lparr>loroDocRef = Some \<lparr>peerId = 1, textState = ''ab'', pendingOps = [],
         oplog = [((1, 0), [OpInsert 0 ''ab''])]\<rparr>,
       content = ''ab'', isInternalUpdateRef = False, eventsDelivered = 1\<rparr> =
   (Throws OutOfBound,
      \<lparr>loroDocRef = Some \<lparr>peerId = 1, textState = ''ab'', pendingOps = [],
         oplog = [((1, 0), [OpInsert 0 ''ab''])]\<rparr>,
       content = ''ab'', isInternalUpdateRef = False, eventsDelivered = 1\<rparr>) \<and>
   deleteText 1 5
      \<lparr>loroDocRef = Some \<lparr>peerId = 1, textState = ''ab'', pendingOps = [],
         oplog = [((1, 0), [OpInsert 0 ''ab''])]\<rparr>,
       content = ''ab'', isInternalUpdateRef = False, eventsDelivered = 1\<rparr> =
   (Throws OutOfBound,
      \<lparr>loroDocRef = Some \<lparr>peerId = 1, textState = ''ab'', pendingOps = [],
         oplog = [((1, 0), [OpInsert 0 ''ab''])]\<rparr>,
       content = ''ab'', isInternalUpdateRef = False, eventsDelivered = 1\<rparr>)"
  by (simp add: insertText_def deleteText_def textInsert_def textDelete_def toIndex_def)

section \<open>Properties of the editor component\<close>

subsection \<open>Saving and restoring the caret\<close>

lemma rangeLength_start: "rangeLength n [] 0 = Some 0"
  by (cases n) simp_all

lemma createRangeChildren_sound:
  assumes some: "\<And>c k p off k'. c \<in> set cs \<Longrightarrow> createRange c k = (Some (p, off), k') \<Longrightarrow>
       rangeLength c p off = Some k"
    and none: "\<And>c k k'. c \<in> set cs \<Longrightarrow> createRange c k = (None, k') \<Longrightarrow>
       textLength c < k \<and> k' = k - textLength c"
    and pos: "0 < k"
  shows "(createRangeChildren cs i k = (Some (p, off), k') \<longrightarrow>
           (\<exists>j p'. p = (i + j) # p' \<and> j < length cs \<and>
              sum_list (map textLength (take j cs)) < k \<and>
              rangeLength (cs ! j) p' off = Some (k - sum_list (map textLength (take j cs))))) \<and>
         (createRangeChildren cs i k = (None, k') \<longrightarrow>
            sum_list (map textLength cs) < k \<and> k' = k - sum_list (map textLength cs))"
  using assms
proof (induction cs arbitrary: i k)
  case Nil
  then show ?case by simp
next
  case (Cons c cs)
  obtain r m where cr: "createRange c k = (r, m)"
    by (cases "createRange c k")
  show ?case
  proof (cases r)
    case (Some b)
    obtain q o' where b: "b = (q, o')" by (cases b)
    from Cons.prems(1) [of c k q o' m] cr Some b
    have "rangeLength c q o' = Some k" by simp
    with cr Some b Cons.prems(3) show ?thesis
      by (auto intro!: exI [of _ 0])
  next
    case None
    from Cons.prems(2) [of c k m] cr None
    have lt: "textLength c < k" and m: "m = k - textLength c" by simp_all
    then have mpos: "0 < m" by simp
    have IH: "(createRangeChildren cs (i + 1) m = (Some (p, off), k') \<longrightarrow>
           (\<exists>j p'. p = (i + 1 + j) # p' \<and> j < length cs \<and>
              sum_list (map textLength (take j cs)) < m \<and>
              rangeLength (cs ! j) p' off = Some (m - sum_list (map textLength (take j cs))))) \<and>
         (createRangeChildren cs (i + 1) m = (None, k') \<longrightarrow>
            sum_list (map textLength cs) < m \<and> k' = m - sum_list (map textLength cs))"
    proof (rule Cons.IH)
      show "\<And>c' k p off k'. c' \<in> set cs \<Longrightarrow> createRange c' k = (Some (p, off), k') \<Longrightarrow>
          rangeLength c' p off = Some k"
        using Cons.prems(1) by simp
      show "\<And>c' k k'. c' \<in> set cs \<Longrightarrow> createRange c' k = (None, k') \<Longrightarrow>
          textLength c' < k \<and> k' = k - textLength c'"
        using Cons.prems(2) by simp
      show "0 < m" by (rule mpos)
    qed
    have eq: "createRangeChildren (c # cs) i k = createRangeChildren cs (i + 1) m"
      using cr None by simp
    show ?thesis
    proof (intro conjI impI)
      assume "createRangeChildren (c # cs) i k = (Some (p, off), k')"
      with eq IH obtain j p' where j: "p = (i + 1 + j) # p'" "j < length cs"
          "sum_list (map textLength (take j cs)) < m"
          "rangeLength (cs ! j) p' off = Some (m - sum_list (map textLength (take j cs)))"
        by auto
      show "\<exists>j p'. p = (i + j) # p' \<and> j < length (c # cs) \<and>
              sum_list (map textLength (take j (c # cs))) < k \<and>
              rangeLength ((c # cs) ! j) p' off =
                Some (k - sum_list (map textLength (take j (c # cs))))"
        using j m lt by (intro exI [of _ "Suc j"] exI [of _ p']) simp
    next
      assume "createRangeChildren (c # cs) i k = (None, k')"
      with eq IH have "sum_list (map textLength cs) < m" "k' = m - sum_list (map textLength cs)"
        by auto
      with m lt show "sum_list (map textLength (c # cs)) < k" by simp
    next
      assume "createRangeChildren (c # cs) i k = (None, k')"
      with eq IH have "sum_list (map textLength cs) < m" "k' = m - sum_list (map textLength cs)"
        by auto
      with m lt show "k' = k - sum_list (map textLength (c # cs))" by simp
    qed
  qed
qed

lemma createRange_sound:
  "(createRange n k = (Some (p, off), k') \<longrightarrow> rangeLength n p off = Some k) \<and>
   (createRange n k = (None, k') \<longrightarrow> textLength n < k \<and> k' = k - textLength n)"
proof (induction n arbitrary: k p off k')
  case (Text s)
  show ?case by (auto simp: rangeLength_start)
next
  case (Comment s)
  show ?case by (auto simp: rangeLength_start)
next
  case (Element t as cs)
  show ?case
  proof (cases "k = 0")
    case True
    then show ?thesis by (auto simp: rangeLength_start)
  next
    case False
    then have pos: "0 < k" by simp
    have ch: "(createRangeChildren cs 0 k = (Some (p, off), k') \<longrightarrow>
           (\<exists>j p'. p = (0 + j) # p' \<and> j < length cs \<and>
              sum_list (map textLength (take j cs)) < k \<and>
              rangeLength (cs ! j) p' off = Some (k - sum_list (map textLength (take j cs))))) \<and>
         (createRangeChildren cs 0 k = (None, k') \<longrightarrow>
            sum_list (map textLength cs) < k \<and> k' = k - sum_list (map textLength cs))"
    proof (rule createRangeChildren_sound)
      show "\<And>c k p off k'. c \<in> set cs \<Longrightarrow> createRange c k = (Some (p, off), k') \<Longrightarrow>
          rangeLength c p off = Some k"
        using Element.IH by blast
      show "\<And>c k k'. c \<in> set cs \<Longrightarrow> createRange c k = (None, k') \<Longrightarrow>
          textLength c < k \<and> k' = k - textLength c"
        using Element.IH by blast
      show "0 < k" by (rule pos)
    qed
    from False have cr: "createRange (Element t as cs) k = createRangeChildren cs 0 k"
      by simp
    show ?thesis
      using ch unfolding cr by auto
  qed
qed

lemma createRange_finds:
  assumes "k \<le> textLength n"
  shows "\<exists>p off. fst (createRange n k) = Some (p, off) \<and> rangeLength n p off = Some k"
proof (cases "createRange n k")
  case (Pair r m)
  show ?thesis
  proof (cases r)
    case None
    with Pair createRange_sound [of n k _ _ m] assms show ?thesis by simp
  next
    case (Some b)
    obtain p off where "b = (p, off)" by (cases b)
    with Some Pair createRange_sound [of n k p off m] show ?thesis by simp
  qed
qed

lemma rangeLength_le: "rangeLength n p off = Some k \<Longrightarrow> k \<le> textLength n"
proof (induction n p off arbitrary: k rule: rangeLength.induct)
  case (3 t as cs off)
  have "sum_list (map textLength (take off cs)) \<le> sum_list (map textLength (take off cs @ drop off cs))"
    unfolding map_append sum_list_append by simp
  with 3 show ?case by (simp split: if_splits)
next
  case (4 t as cs i p off)
  from "4.prems" obtain m where i: "i < length cs" and m: "rangeLength (cs ! i) p off = Some m"
    and k: "k = sum_list (map textLength (take i cs)) + m"
    by (auto split: if_splits)
  from "4.IH" [OF i m] have "m \<le> textLength (cs ! i)" .
  moreover have "cs = take i cs @ cs ! i # drop (Suc i) cs"
    using i by (simp add: id_take_nth_drop)
  then have "sum_list (map textLength cs) =
      sum_list (map textLength (take i cs)) + textLength (cs ! i) +
      sum_list (map textLength (drop (Suc i) cs))"
    by (metis append_Cons append_Nil list.simps(9) map_append sum_list.Cons sum_list.append add.assoc)
  ultimately show ?case using k by simp
qed (simp_all split: if_splits)


lemma textLength_textContent:
  "textLength n = (case n of Comment s \<Rightarrow> 0 | _ \<Rightarrow> length (textContent n))"
proof (induction n)
  case (Element t as cs)
  have "sum_list (map textLength cs) =
      sum_list (map (\<lambda>c. length (case c of Comment s \<Rightarrow> [] | _ \<Rightarrow> textContent c)) cs)"
  proof (rule arg_cong [where f = sum_list], rule map_cong [OF refl])
    fix c assume "c \<in> set cs"
    from Element.IH [OF this]
    show "textLength c = length (case c of Comment s \<Rightarrow> [] | _ \<Rightarrow> textContent c)"
      by (cases c) simp_all
  qed
  then show ?case
    by (simp add: length_concat comp_def)
qed simp_all

lemma textLength_editorElement: "textLength (editorElement cs) = length (textContent (editorElement cs))"
  using textLength_textContent [of "editorElement cs"] by (simp add: editorElement_def)

text \<open>
  Claim C7, as amended. In standard mode, with \<open>isUpdatingRef\<close> clear and the caret saved
  at character offset \<open>k\<close>, a content update that differs from the rendered HTML and
  whose text is the old text with \<open>ins\<close> inserted at any position \<open>pos\<close> (after or
  before the caret) leaves the caret at character offset \<open>k\<close> of the new content. The
  caret is restored at the saved offset and is never shifted by the length of an
  insertion before it.
\<close>

theorem caret_restored_at_saved_offset:
  assumes ref: "editorRef c = Some cs"
    and idle: "\<not> isUpdatingRef c" "\<not> useVirtualization c"
    and saved: "saveCursorPosition c = Some k"
    and differs: "innerHTML cs \<noteq> content'"
    and ins: "textContent (editorElement (parser content')) =
        take pos (textContent (editorElement cs)) @ ins @ drop pos (textContent (editorElement cs))"
  shows "saveCursorPosition (contentSyncEffect parser content' c) = Some k"
proof -
  from saved ref obtain p off where sel: "selection c = Some (p, off)"
      and rl: "rangeLength (editorElement cs) p off = Some k"
    by (auto simp: saveCursorPosition_def split: option.splits)
  from rangeLength_le [OF rl] have "k \<le> length (textContent (editorElement cs))"
    by (simp add: textLength_editorElement)
  then have "k \<le> length (textContent (editorElement (parser content')))"
    by (simp add: ins)
  then have "k \<le> textLength (editorElement (parser content'))"
    by (simp add: textLength_editorElement)
  from createRange_finds [OF this] obtain q o' where
      cr: "fst (createRange (editorElement (parser content')) k) = Some (q, o')"
      and rq: "rangeLength (editorElement (parser content')) q o' = Some k"
    by blast
  have "contentSyncEffect parser content' c =
      c\<lparr>editorRef := Some (parser content'), selection := Some (q, o')\<rparr>"
    using ref idle saved differs cr sel
    by (simp add: contentSyncEffect_def restoreCursorPosition_def Let_def)
  then show ?thesis
    using rq by (simp add: saveCursorPosition_def)
qed

theorem caret_restored_at_saved_offset_witness:
  "saveCursorPosition (contentSyncEffect (\<lambda>_. [Text ''abX'']) ''abX''
     \<lparr>onContentChange = None, internalEditor = mountEffect 1 initialEditor,
      editorRef = Some [Text ''ab''],
      selection = Some ([0], 1), isUpdatingRef = False, useVirtualization = False,
      timers = []\<rparr>) = Some 1"
proof -
  let ?c = "\<lparr>onContentChange = None, internalEditor = mountEffect 1 initialEditor,
      editorRef = Some [Text ''ab''],
      selection = Some ([0], 1), isUpdatingRef = False, useVirtualization = False,
      timers = []\<rparr>"
  have ref: "editorRef ?c = Some [Text ''ab'']" by simp
  have idle: "\<not> isUpdatingRef ?c" "\<not> useVirtualization ?c" by simp_all
  have saved: "saveCursorPosition ?c = Some 1"
    by (simp add: saveCursorPosition_def editorElement_def)
  have differs: "innerHTML [Text ''ab''] \<noteq> ''abX''"
    by (simp add: innerHTML_def)
  have ins: "textContent (editorElement ((\<lambda>_. [Text ''abX'']) ''abX'')) =
      take 2 (textContent (editorElement [Text ''ab''])) @ ''X'' @
      drop 2 (textContent (editorElement [Text ''ab'']))"
    by (simp add: editorElement_def)
  from caret_restored_at_saved_offset
      [where parser = "\<lambda>_. [Text ''abX'']" and content' = "''abX''" and pos = 2 and ins = "''X''",
       OF ref idle saved differs ins]
  show ?thesis .
qed

text \<open>
  The claim as stated fails for an insertion before the caret: with the text \<open>ab\<close> and
  the caret at offset 1, the update to \<open>Xab\<close> (insertion of \<open>X\<close> at position 0) restores
  the caret at offset 1, not at offset 2.
\<close>

theorem caret_shift_counterexample:
  "saveCursorPosition
     \<lparr>onContentChange = None, internalEditor = mountEffect 1 initialEditor,
      editorRef = Some [Text ''ab''],
      selection = Some ([0], 1), isUpdatingRef = False, useVirtualization = False,
      timers = []\<rparr> = Some 1 \<and>
   textContent (editorElement [Text ''Xab'']) =
     take 0 (textContent (editorElement [Text ''ab''])) @ ''X'' @
     drop 0 (textContent (editorElement [Text ''ab''])) \<and>
   saveCursorPosition (contentSyncEffect (\<lambda>_. [Text ''Xab'']) ''Xab''
     \<lparr>onContentChange = None, internalEditor = mountEffect 1 initialEditor,
      editorRef = Some [Text ''ab''],
      selection = Some ([0], 1), isUpdatingRef = False, useVirtualization = False,
      timers = []\<rparr>) = Some 1 \<and>
   Some (1::nat) \<noteq> Some (1 + length ''X'')"
  by (simp add: saveCursorPosition_def contentSyncEffect_def restoreCursorPosition_def
      editorElement_def innerHTML_def)

subsection \<open>The suppression flags\<close>

lemma updateContent_returns: "fst (updateContent x s) = Returns ()"
  by (auto simp: updateContent_def textDelete_def textInsert_def Let_def split: option.splits prod.splits)

lemma updateContent_flag:
  "\<not> isInternalUpdateRef s \<Longrightarrow> \<not> isInternalUpdateRef (snd (updateContent x s))"
  by (auto simp: updateContent_def textDelete_def textInsert_def Let_def split: option.splits prod.splits)

lemma runTimer_eq: "runTimer t c = c\<lparr>isUpdatingRef := False\<rparr>"
  by (cases t) simp

lemma flagInv_mounted: "callbackReturns callback \<Longrightarrow> flagInv (mountedComponent peer callback)"
  by (simp add: flagInv_def mountedComponent_def mountEffect_def initialEditor_def)

lemma flagInv_handleInput:
  assumes "flagInv c"
  shows "flagInv (handleInput c)"
proof (cases "editorRef c")
  case None
  with assms show ?thesis by (simp add: handleInput_def)
next
  case (Some cs)
  show ?thesis
  proof (cases "onContentChange c")
    case None
    with Some assms show ?thesis
      using updateContent_returns [of "innerHTML cs" "internalEditor c"]
        updateContent_flag [of "internalEditor c" "innerHTML cs"]
      by (auto simp: flagInv_def handleInput_def Let_def split: prod.splits completion.splits)
  next
    case (Some f)
    with assms have "f (innerHTML cs) = Returns ()"
      by (simp add: flagInv_def callbackReturns_def)
    with Some \<open>editorRef c = Some cs\<close> assms show ?thesis
      by (simp add: flagInv_def handleInput_def Let_def)
  qed
qed

lemma flagInv_contentSyncEffect: "flagInv c \<Longrightarrow> flagInv (contentSyncEffect parser x c)"
  by (auto simp: flagInv_def contentSyncEffect_def restoreCursorPosition_def Let_def
      split: option.splits)

lemma flagInv_runTask: "flagInv c \<Longrightarrow> flagInv (runTask parser t c)"
proof (cases t)
  case (InputEvent ns sel)
  assume "flagInv c"
  then have "flagInv (c\<lparr>editorRef := map_option (\<lambda>_. ns) (editorRef c), selection := sel\<rparr>)"
    by (simp add: flagInv_def)
  then show ?thesis
    unfolding InputEvent runTask.simps by (rule flagInv_handleInput)
next
  case TimerTask
  assume "flagInv c"
  then show ?thesis
    unfolding TimerTask by (cases "timers c") (auto simp: flagInv_def runTimer_eq)
next
  case (ContentChange x)
  assume "flagInv c"
  then show ?thesis
    unfolding ContentChange by (simp add: flagInv_contentSyncEffect)
qed

lemma flagInv_reachable: "flagInv c \<Longrightarrow> flagInv (fold (runTask parser) ts c)"
  by (induction ts arbitrary: c) (simp_all add: flagInv_runTask)

lemma timers_drained:
  "(isUpdatingRef c \<longrightarrow> timers c \<noteq> []) \<Longrightarrow>
     \<not> isUpdatingRef (fold (runTask parser) (replicate (length (timers c)) TimerTask) c)"
proof (induction "timers c" arbitrary: c)
  case Nil
  then show ?case by simp
next
  case (Cons t ts)
  from Cons.hyps(2) have tc: "timers c = t # ts" by simp
  have step: "runTask parser TimerTask c = c\<lparr>timers := ts, isUpdatingRef := False\<rparr>"
    using tc by (simp add: runTimer_eq)
  have "\<not> isUpdatingRef (fold (runTask parser) (replicate (length (timers (runTask parser TimerTask c))) TimerTask)
      (runTask parser TimerTask c))"
    by (rule Cons.hyps(1)) (simp_all add: step del: runTask.simps)
  then show ?case
    by (simp add: tc step del: runTask.simps)
qed

text \<open>
  Claim C8, as amended. Let \<open>updateContent\<close> be the internal store's, or a callback
  \<open>onContentChange\<close> that returns normally on every call. Then in every state the
  component reaches from its mounted state by input events, timer tasks and content
  changes, \<open>isInternalUpdateRef\<close> is clear (\<open>updateContent\<close> sets and clears it within one
  call), and whenever \<open>isUpdatingRef\<close> is set a clearing callback queued with
  \<open>setTimeout\<close> is pending; once the pending timer tasks have run the flag is clear.
  The flag is cleared by that later timer task, not within the tick that set it.
\<close>

theorem suppression_flags_cleared:
  assumes "callbackReturns callback"
  shows "\<not> isInternalUpdateRef
       (internalEditor (fold (runTask parser) ts (mountedComponent peer callback))) \<and>
   (isUpdatingRef (fold (runTask parser) ts (mountedComponent peer callback)) \<longrightarrow>
      timers (fold (runTask parser) ts (mountedComponent peer callback)) \<noteq> []) \<and>
   \<not> isUpdatingRef
      (fold (runTask parser)
         (replicate (length (timers (fold (runTask parser) ts (mountedComponent peer callback))))
            TimerTask)
         (fold (runTask parser) ts (mountedComponent peer callback)))"
proof -
  have inv: "flagInv (fold (runTask parser) ts (mountedComponent peer callback))"
    by (rule flagInv_reachable) (rule flagInv_mounted [OF assms])
  then show ?thesis
    using timers_drained [of "fold (runTask parser) ts (mountedComponent peer callback)" parser]
    by (simp add: flagInv_def)
qed

theorem suppression_flags_cleared_witness:
  "isUpdatingRef (fold (runTask (\<lambda>_. [])) [InputEvent [Text ''a''] (Some ([0], 1))]
      (mountedComponent 1 (Some (\<lambda>_. Returns ())))) \<and>
   timers (fold (runTask (\<lambda>_. [])) [InputEvent [Text ''a''] (Some ([0], 1))]
      (mountedComponent 1 (Some (\<lambda>_. Returns ())))) = [ClearIsUpdating] \<and>
   \<not> isUpdatingRef (fold (runTask (\<lambda>_. [])) [InputEvent [Text ''a''] (Some ([0], 1)), TimerTask]
      (mountedComponent 1 (Some (\<lambda>_. Returns ())))) \<and>
   \<not> isUpdatingRef (fold (runTask (\<lambda>_. [])) [InputEvent [Text ''a''] (Some ([0], 1)), TimerTask]
      (mountedComponent 1 None))"
proof -
  let ?cb = "Some (\<lambda>_::string. Returns ())"
  have r: "callbackReturns ?cb" "callbackReturns None"
    by (simp_all add: callbackReturns_def)
  have t: "timers (fold (runTask (\<lambda>_. [])) [InputEvent [Text ''a''] (Some ([0], 1))]
        (mountedComponent 1 ?cb)) = [ClearIsUpdating]"
    and u: "isUpdatingRef (fold (runTask (\<lambda>_. [])) [InputEvent [Text ''a''] (Some ([0], 1))]
        (mountedComponent 1 ?cb))"
    and t': "timers (fold (runTask (\<lambda>_. [])) [InputEvent [Text ''a''] (Some ([0], 1))]
        (mountedComponent 1 None)) = [ClearIsUpdating]"
    by (simp_all add: mountedComponent_def handleInput_def updateContent_def mountEffect_def
        initialEditor_def newLoro_def textInsert_def innerHTML_def commit_def deliver_def
        subscriber_def Let_def)
  from suppression_flags_cleared [OF r(1), of "\<lambda>_. []" "[InputEvent [Text ''a''] (Some ([0], 1))]" 1]
    suppression_flags_cleared [OF r(2), of "\<lambda>_. []" "[InputEvent [Text ''a''] (Some ([0], 1))]" 1]
    t u t'
  show ?thesis by simp
qed

text \<open>
  The claim as stated fails on the timing: after the task of an input event (and the
  microtask checkpoint that follows it, which has nothing to run) \<open>isUpdatingRef\<close> is
  still set; the callback that clears it waits in the timer queue.
\<close>

theorem suppression_flag_same_tick_counterexample:
  "isUpdatingRef (runTask (\<lambda>_. []) (InputEvent [Text ''a''] (Some ([0], 1)))
      (mountedComponent 1 None)) \<and>
   timers (runTask (\<lambda>_. []) (InputEvent [Text ''a''] (Some ([0], 1)))
      (mountedComponent 1 None)) = [ClearIsUpdating]"
  by (simp add: mountedComponent_def handleInput_def updateContent_def mountEffect_def
        initialEditor_def newLoro_def textInsert_def innerHTML_def commit_def deliver_def
        subscriber_def Let_def)

text \<open>
  A callback \<open>onContentChange\<close> that throws is outside the statement above: the handler
  is then left with \<open>isUpdatingRef\<close> set and without a clearing callback queued.
\<close>

lemma handleInput_callback_throws:
  "isUpdatingRef (runTask (\<lambda>_. []) (InputEvent [Text ''a''] (Some ([0], 1)))
      (mountedComponent 1 (Some (\<lambda>_. Throws e)))) \<and>
   timers (runTask (\<lambda>_. []) (InputEvent [Text ''a''] (Some ([0], 1)))
      (mountedComponent 1 (Some (\<lambda>_. Throws e)))) = []"
  by (simp add: mountedComponent_def handleInput_def Let_def)

section \<open>Properties of the viewport window\<close>














end
